theory Spec2Isabelle
  imports Complex_Main
begin

section \<open>Data frames\<close>

text \<open>
  The engine of \<^verbatim>\<open>app_logic.py\<close> keeps its data in pandas frames. A frame is modelled by
  its column labels and its rows; a row carries its index label (the frame's index survives
  filtering and sorting) and one cell per column. A cell holds a number, a text, or one of
  the two missing values of pandas: the float \<^verbatim>\<open>NaN\<close> and Python's \<^verbatim>\<open>None\<close>.
  Column labels are taken to be distinct, as \<^verbatim>\<open>read_excel\<close> delivers them; a lookup uses
  the first column of that name. Text is modelled over ASCII.
\<close>

datatype cell = NaN | PyNone | Num rat | Str string

record dataframe =
  columns :: "string list"
  rows :: "(nat \<times> cell list) list"

definition empty_frame :: dataframe where
  \<comment> \<open>\<^verbatim>\<open>pd.DataFrame()\<close>\<close>
  "empty_frame = \<lparr>columns = [], rows = []\<rparr>"

definition is_empty :: "dataframe \<Rightarrow> bool" where
  \<comment> \<open>\<^verbatim>\<open>DataFrame.empty\<close>: some axis has length 0\<close>
  "is_empty d = (columns d = [] \<or> rows d = [])"

definition isna :: "cell \<Rightarrow> bool" where
  "isna c = (c = NaN \<or> c = PyNone)"

fun col_pos :: "string \<Rightarrow> string list \<Rightarrow> nat" where
  "col_pos c [] = 0"
| "col_pos c (x # xs) = (if x = c then 0 else Suc (col_pos c xs))"

definition cell_at :: "nat \<Rightarrow> cell list \<Rightarrow> cell" where
  \<comment> \<open>a frame is rectangular: a position a row does not fill reads as missing\<close>
  "cell_at i vs = (if i < length vs then vs ! i else NaN)"

definition row_values :: "dataframe \<Rightarrow> nat \<times> cell list \<Rightarrow> cell list" where
  "row_values d r = map (\<lambda>i. cell_at i (snd r)) [0..<length (columns d)]"

definition col_values :: "dataframe \<Rightarrow> string \<Rightarrow> cell list" where
  \<comment> \<open>\<^verbatim>\<open>df[col]\<close>\<close>
  "col_values d c = map (\<lambda>r. cell_at (col_pos c (columns d)) (snd r)) (rows d)"

definition assign_col :: "dataframe \<Rightarrow> string \<Rightarrow> cell list \<Rightarrow> dataframe" where
  \<comment> \<open>\<^verbatim>\<open>df[col] = values\<close> for an existing column\<close>
  "assign_col d c vs =
     d\<lparr>rows := map (\<lambda>(r, v). (fst r, (snd r)[col_pos c (columns d) := v])) (zip (rows d) vs)\<rparr>"

definition mask_rows :: "dataframe \<Rightarrow> bool list \<Rightarrow> dataframe" where
  \<comment> \<open>\<^verbatim>\<open>df[mask]\<close> with a boolean series\<close>
  "mask_rows d m = d\<lparr>rows := map fst (filter snd (zip (rows d) m))\<rparr>"

definition take_rows :: "dataframe \<Rightarrow> nat list \<Rightarrow> dataframe" where
  \<comment> \<open>\<^verbatim>\<open>df.take(indexer)\<close>: the rows at the given positions, in that order\<close>
  "take_rows d ix = d\<lparr>rows := map (\<lambda>i. rows d ! i) ix\<rparr>"

section \<open>The library\<close>

text \<open>
  What the engine asks of pandas, numpy and Python and what this theory does not define
  itself is a parameter \<open>pd\<close> of every operation:
  \<^item> \<open>to_json\<close> is \<^verbatim>\<open>df.to_json(orient='split', date_format='iso')\<close>, \<open>None\<close> when it raises;
  \<^item> \<open>read_json\<close> is \<^verbatim>\<open>pd.read_json(token, orient='split')\<close>, \<open>None\<close> when it raises;
  \<^item> \<open>re_search\<close> is \<^verbatim>\<open>re.search(pat, s) is not None\<close> for a pattern holding a
    metacharacter of regular expressions, \<open>None\<close> when the pattern does not compile;
  \<^item> \<open>str_of_num\<close> is the text \<^verbatim>\<open>str\<close> gives a number, \<open>num_of_str\<close> the number
    \<^verbatim>\<open>pd.to_numeric\<close> reads from a text (\<open>None\<close> when it reads none);
  \<^item> \<open>argsort\<close> is numpy's \<^verbatim>\<open>argsort\<close> of the default kind, which \<^verbatim>\<open>sort_values\<close>
    calls on the keys that are not missing.
  The type \<open>'j\<close> is the type of serialized frames.
\<close>

record 'j pandas =
  to_json :: "dataframe \<Rightarrow> 'j option"
  read_json :: "'j \<Rightarrow> dataframe option"
  re_search :: "string \<Rightarrow> string \<Rightarrow> bool option"
  str_of_num :: "rat \<Rightarrow> string"
  num_of_str :: "string \<Rightarrow> rat option"
  argsort :: "cell list \<Rightarrow> nat list"

subsection \<open>Text\<close>

definition lower_char :: "char \<Rightarrow> char" where
  "lower_char c =
     (case map_of (zip ''ABCDEFGHIJKLMNOPQRSTUVWXYZ'' ''abcdefghijklmnopqrstuvwxyz'') c of
        Some l \<Rightarrow> l
      | None \<Rightarrow> c)"

definition lower :: "string \<Rightarrow> string" where
  \<comment> \<open>\<^verbatim>\<open>str.lower()\<close>\<close>
  "lower s = map lower_char s"

definition isspace :: "char \<Rightarrow> bool" where
  "isspace c = (c \<in> set [CHR 0x09, CHR 0x0A, CHR 0x0B, CHR 0x0C, CHR 0x0D,
                          CHR 0x1C, CHR 0x1D, CHR 0x1E, CHR 0x1F, CHR 0x20])"

definition strip :: "string \<Rightarrow> string" where
  \<comment> \<open>\<^verbatim>\<open>str.strip()\<close>\<close>
  "strip s = rev (dropWhile isspace (rev (dropWhile isspace s)))"

fun startswith :: "string \<Rightarrow> string \<Rightarrow> bool" where
  "startswith s [] = True"
| "startswith [] (p # ps) = False"
| "startswith (x # xs) (p # ps) = (x = p \<and> startswith xs ps)"

fun substring :: "string \<Rightarrow> string \<Rightarrow> bool" where
  \<comment> \<open>\<^verbatim>\<open>p in s\<close>\<close>
  "substring p [] = (p = [])"
| "substring p (x # xs) = (startswith (x # xs) p \<or> substring p xs)"

definition regex_free :: "string \<Rightarrow> bool" where
  \<comment> \<open>no character of the pattern is special in a regular expression\<close>
  "regex_free p = list_all (\<lambda>c. c \<notin> set (CHR 0x5C # ''.^$*+?{}[]|()'')) p"

fun str_less :: "string \<Rightarrow> string \<Rightarrow> bool" where
  \<comment> \<open>\<^verbatim>\<open><\<close> on \<^verbatim>\<open>str\<close>: lexicographic by code point\<close>
  "str_less [] [] = False"
| "str_less [] (y # ys) = True"
| "str_less (x # xs) [] = False"
| "str_less (x # xs) (y # ys) = ((of_char x :: nat) < of_char y \<or> (x = y \<and> str_less xs ys))"

subsection \<open>Series\<close>

text \<open>
  A series of text is a list of \<open>string option\<close>, \<open>None\<close> for a missing value. The string
  methods skip missing values; \<^verbatim>\<open>astype(str)\<close> does not: it turns every value, a
  missing one too, into its text.
\<close>

definition astype_str :: "'j pandas \<Rightarrow> cell \<Rightarrow> string" where
  "astype_str pd c =
     (case c of NaN \<Rightarrow> ''nan'' | PyNone \<Rightarrow> ''None'' | Num r \<Rightarrow> str_of_num pd r | Str s \<Rightarrow> s)"

definition series_astype_str :: "'j pandas \<Rightarrow> cell list \<Rightarrow> string option list" where
  \<comment> \<open>\<^verbatim>\<open>.astype(str)\<close>\<close>
  "series_astype_str pd vs = map (\<lambda>c. Some (astype_str pd c)) vs"

definition str_lower :: "string option list \<Rightarrow> string option list" where
  \<comment> \<open>\<^verbatim>\<open>.str.lower()\<close>\<close>
  "str_lower ss = map (map_option lower) ss"

definition contains1 :: "'j pandas \<Rightarrow> string \<Rightarrow> bool \<Rightarrow> string option \<Rightarrow> bool option" where
  \<comment> \<open>one element of \<^verbatim>\<open>.str.contains(pat, na=na)\<close>; the pattern is a regular expression\<close>
  "contains1 pd pat na x =
     (case x of
        None \<Rightarrow> Some na
      | Some s \<Rightarrow> if regex_free pat then Some (substring pat s) else re_search pd pat s)"

definition str_contains :: "'j pandas \<Rightarrow> string \<Rightarrow> bool \<Rightarrow> string option list \<Rightarrow> bool list option" where
  \<comment> \<open>\<^verbatim>\<open>.str.contains(pat, na=na)\<close>, \<open>None\<close> when it raises\<close>
  "str_contains pd pat na ss = those (map (contains1 pd pat na) ss)"

definition to_numeric :: "'j pandas \<Rightarrow> cell list \<Rightarrow> cell list" where
  \<comment> \<open>\<^verbatim>\<open>pd.to_numeric(col, errors='coerce')\<close>\<close>
  "to_numeric pd vs =
     map (\<lambda>c. case c of
                 Num r \<Rightarrow> Num r
               | Str s \<Rightarrow> (case num_of_str pd s of Some r \<Rightarrow> Num r | None \<Rightarrow> NaN)
               | _ \<Rightarrow> NaN) vs"

subsection \<open>Sorting\<close>

fun cell_less :: "cell \<Rightarrow> cell \<Rightarrow> bool" where
  "cell_less (Num a) (Num b) = (a < b)"
| "cell_less (Str a) (Str b) = str_less a b"
| "cell_less _ _ = False"

definition nargsort :: "'j pandas \<Rightarrow> cell list \<Rightarrow> bool \<Rightarrow> nat list" where
  \<comment> \<open>the indexer of \<^verbatim>\<open>sort_values(..., na_position='last')\<close>: the keys that are not
      missing are sorted (reversed before and after for a descending sort), the rows with a
      missing key follow in their order\<close>
  "nargsort pd items ascending =
     (let idx = [0..<length items];
          non_nan_idx = filter (\<lambda>i. \<not> isna (items ! i)) idx;
          nan_idx = filter (\<lambda>i. isna (items ! i)) idx;
          non_nan_idx = (if ascending then non_nan_idx else rev non_nan_idx);
          non_nans = map (\<lambda>i. items ! i) non_nan_idx;
          indexer = map (\<lambda>k. non_nan_idx ! k) (argsort pd non_nans);
          indexer = (if ascending then indexer else rev indexer)
      in indexer @ nan_idx)"

definition sort_values :: "'j pandas \<Rightarrow> dataframe \<Rightarrow> cell list \<Rightarrow> bool \<Rightarrow> dataframe" where
  \<comment> \<open>\<^verbatim>\<open>df.sort_values(by=col, ascending=ascending, na_position='last')\<close>, on the keys given\<close>
  "sort_values pd d keys ascending = take_rows d (nargsort pd keys ascending)"

section \<open>The engine\<close>

text \<open>
  The class \<^verbatim>\<open>AppLogic\<close>. Its methods mutate the object; here each takes the state and
  returns the new one. A method that can raise returns an option, \<open>None\<close> for the raise:
  \<^verbatim>\<open>push_state\<close> catches every exception and is total.
\<close>

record 'j app_logic =
  df :: dataframe
  current_view_df :: dataframe
  undo_stack :: "'j list"
  redo_stack :: "'j list"
  max_undo_steps :: int
  active_filter_col :: "string option"
  active_filter_text :: string
  active_sort_col :: "string option"
  active_sort_type :: "string option"

definition AppLogic_init :: "'j app_logic" where
  \<comment> \<open>\<^verbatim>\<open>__init__\<close>\<close>
  "AppLogic_init =
     \<lparr>df = empty_frame, current_view_df = empty_frame, undo_stack = [], redo_stack = [],
      max_undo_steps = 50, active_filter_col = None, active_filter_text = [],
      active_sort_col = None, active_sort_type = None\<rparr>"

definition get_current_view :: "'j app_logic \<Rightarrow> dataframe" where
  "get_current_view s = current_view_df s"

definition push_state :: "'j pandas \<Rightarrow> 'j app_logic \<Rightarrow> 'j app_logic" where
  "push_state pd s =
     (case to_json pd (df s) of
        None \<Rightarrow> s
      | Some current_df_json \<Rightarrow>
          if undo_stack s = [] \<or> last (undo_stack s) \<noteq> current_df_json then
            let us = undo_stack s @ [current_df_json];
                us = (if int (length us) > max_undo_steps s then tl us else us)
            in s\<lparr>undo_stack := us, redo_stack := []\<rparr>
          else s)"

definition filter_step :: "'j pandas \<Rightarrow> string option \<Rightarrow> string \<Rightarrow> dataframe \<Rightarrow> dataframe option" where
  \<comment> \<open>lines 121 to 133 of \<^verbatim>\<open>apply_filters_and_sort\<close>\<close>
  "filter_step pd filter_col filter_text temp_df =
     (if filter_text \<noteq> [] then
        let search_term = lower (strip filter_text) in
        if search_term \<noteq> [] then
          if (case filter_col of None \<Rightarrow> False | Some c \<Rightarrow> c \<noteq> [] \<and> c \<in> set (columns temp_df)) then
            map_option (mask_rows temp_df)
              (str_contains pd search_term False
                 (str_lower (series_astype_str pd (col_values temp_df (the filter_col)))))
          else
            map_option (mask_rows temp_df)
              (those (map (\<lambda>row. map_option (\<lambda>bs. True \<in> set bs)
                                  (str_contains pd search_term False
                                     (str_lower (series_astype_str pd (row_values temp_df row)))))
                        (rows temp_df)))
        else Some temp_df
      else Some temp_df)"

definition sort_step :: "'j pandas \<Rightarrow> string option \<Rightarrow> string option \<Rightarrow> dataframe \<Rightarrow> dataframe" where
  \<comment> \<open>lines 135 to 156 of \<^verbatim>\<open>apply_filters_and_sort\<close>\<close>
  "sort_step pd sort_col sort_type temp_df =
     (if (case sort_col of None \<Rightarrow> False | Some c \<Rightarrow> c \<noteq> [] \<and> c \<in> set (columns temp_df)) then
        let column_to_sort = the sort_col;
            ascending = (sort_type \<notin> {Some ''za'', Some ''num_desc''});
            is_numeric_sort = (sort_type \<in> {Some ''num_asc'', Some ''num_desc''})
        in if is_numeric_sort then
             let temp_df = assign_col temp_df column_to_sort
                             (to_numeric pd (col_values temp_df column_to_sort))
             in sort_values pd temp_df (col_values temp_df column_to_sort) ascending
           else
             sort_values pd temp_df
               (map (\<lambda>c. Str (lower (astype_str pd c))) (col_values temp_df column_to_sort))
               ascending
      else temp_df)"

definition compute_view ::
  "'j pandas \<Rightarrow> dataframe \<Rightarrow> string option \<Rightarrow> string \<Rightarrow> string option \<Rightarrow> string option \<Rightarrow> dataframe option" where
  \<comment> \<open>lines 115 to 158 of \<^verbatim>\<open>apply_filters_and_sort\<close>: the view of a frame under four criteria\<close>
  "compute_view pd d filter_col filter_text sort_col sort_type =
     (if is_empty d then Some \<lparr>columns = columns d, rows = []\<rparr>
      else map_option (sort_step pd sort_col sort_type) (filter_step pd filter_col filter_text d))"

definition apply_filters_and_sort ::
  "'j pandas \<Rightarrow> string option \<Rightarrow> string option \<Rightarrow> string option \<Rightarrow> string option \<Rightarrow>
   'j app_logic \<Rightarrow> 'j app_logic option" where
  "apply_filters_and_sort pd filter_col filter_text sort_col sort_type s =
     (let s = (case filter_col of None \<Rightarrow> s | Some c \<Rightarrow> s\<lparr>active_filter_col := Some c\<rparr>);
          s = (case filter_text of None \<Rightarrow> s | Some t \<Rightarrow> s\<lparr>active_filter_text := t\<rparr>);
          s = (case sort_col of None \<Rightarrow> s | Some c \<Rightarrow> s\<lparr>active_sort_col := Some c\<rparr>);
          s = (case sort_type of None \<Rightarrow> s | Some t \<Rightarrow> s\<lparr>active_sort_type := Some t\<rparr>)
      in map_option (\<lambda>v. s\<lparr>current_view_df := v\<rparr>)
           (compute_view pd (df s) (active_filter_col s) (active_filter_text s)
              (active_sort_col s) (active_sort_type s)))"

definition reset_filters_and_sort :: "'j pandas \<Rightarrow> 'j app_logic \<Rightarrow> 'j app_logic option" where
  "reset_filters_and_sort pd s = apply_filters_and_sort pd (Some []) (Some []) (Some []) (Some []) s"

definition load_new_sheet :: "'j pandas \<Rightarrow> dataframe \<Rightarrow> 'j app_logic \<Rightarrow> 'j app_logic option" where
  "load_new_sheet pd dataframe s =
     (let s = s\<lparr>df := dataframe, undo_stack := [], redo_stack := [],
                active_filter_col := None, active_filter_text := [],
                active_sort_col := None, active_sort_type := None\<rparr>;
          s = push_state pd s
      in apply_filters_and_sort pd None None None None s)"

definition undo :: "'j pandas \<Rightarrow> 'j app_logic \<Rightarrow> (bool \<times> 'j app_logic) option" where
  "undo pd s =
     (if length (undo_stack s) > 1 then
        let current_state = last (undo_stack s);
            s = s\<lparr>undo_stack := butlast (undo_stack s)\<rparr>;
            s = s\<lparr>redo_stack := redo_stack s @ [current_state]\<rparr>;
            previous_state_json = last (undo_stack s)
        in case read_json pd previous_state_json of
             None \<Rightarrow> None
           | Some d \<Rightarrow> map_option (Pair True) (apply_filters_and_sort pd None None None None (s\<lparr>df := d\<rparr>))
      else Some (False, s))"

definition redo :: "'j pandas \<Rightarrow> 'j app_logic \<Rightarrow> (bool \<times> 'j app_logic) option" where
  "redo pd s =
     (if redo_stack s \<noteq> [] then
        let state_to_restore = last (redo_stack s);
            s = s\<lparr>redo_stack := butlast (redo_stack s)\<rparr>;
            s = s\<lparr>undo_stack := undo_stack s @ [state_to_restore]\<rparr>
        in case read_json pd state_to_restore of
             None \<Rightarrow> None
           | Some d \<Rightarrow> map_option (Pair True) (apply_filters_and_sort pd None None None None (s\<lparr>df := d\<rparr>))
      else Some (False, s))"

subsection \<open>Sequences of calls\<close>

text \<open>
  What a caller can do with the engine: call a method, or write the public field
  \<^verbatim>\<open>df\<close>, as \<^verbatim>\<open>_handle_cell_changed\<close> of \<^verbatim>\<open>main_window.py\<close> does after its call of
  \<^verbatim>\<open>push_state\<close>. A sequence stops at the first call that raises.
\<close>

datatype call =
    LoadNewSheet dataframe
  | PushState
  | Undo
  | Redo
  | ApplyFiltersAndSort "string option" "string option" "string option" "string option"
  | ResetFiltersAndSort
  | WriteDf dataframe

fun exec_call :: "'j pandas \<Rightarrow> call \<Rightarrow> 'j app_logic \<Rightarrow> 'j app_logic option" where
  "exec_call pd (LoadNewSheet d) s = load_new_sheet pd d s"
| "exec_call pd PushState s = Some (push_state pd s)"
| "exec_call pd Undo s = map_option snd (undo pd s)"
| "exec_call pd Redo s = map_option snd (redo pd s)"
| "exec_call pd (ApplyFiltersAndSort fc ft sc st) s = apply_filters_and_sort pd fc ft sc st s"
| "exec_call pd ResetFiltersAndSort s = reset_filters_and_sort pd s"
| "exec_call pd (WriteDf d) s = Some (s\<lparr>df := d\<rparr>)"

fun run :: "'j pandas \<Rightarrow> call list \<Rightarrow> 'j app_logic \<Rightarrow> 'j app_logic option" where
  "run pd [] s = Some s"
| "run pd (c # cs) s = (case exec_call pd c s of None \<Rightarrow> None | Some s' \<Rightarrow> run pd cs s')"

fun undo_n :: "'j pandas \<Rightarrow> nat \<Rightarrow> 'j app_logic \<Rightarrow> 'j app_logic option" where
  \<comment> \<open>\<open>n\<close> calls of \<^verbatim>\<open>undo\<close>, each returning \<^verbatim>\<open>True\<close>\<close>
  "undo_n pd 0 s = Some s"
| "undo_n pd (Suc n) s = (case undo pd s of Some (True, s') \<Rightarrow> undo_n pd n s' | _ \<Rightarrow> None)"

fun redo_n :: "'j pandas \<Rightarrow> nat \<Rightarrow> 'j app_logic \<Rightarrow> 'j app_logic option" where
  \<comment> \<open>\<open>n\<close> calls of \<^verbatim>\<open>redo\<close>, each returning \<^verbatim>\<open>True\<close>\<close>
  "redo_n pd 0 s = Some s"
| "redo_n pd (Suc n) s = (case redo pd s of Some (True, s') \<Rightarrow> redo_n pd n s' | _ \<Rightarrow> None)"

section \<open>A reference library\<close>

text \<open>
  One library to run the engine on: a serialized frame is the frame itself (a codec that
  loses nothing), no pattern with a metacharacter compiles, a number is read from a text
  of decimal digits and written with its decimal expansion, and \<open>argsort\<close> is a stable
  insertion sort. The theorems below that hold for every library do not use it; they are
  run on it at concrete inputs.
\<close>

definition digit_val :: "char \<Rightarrow> nat option" where
  "digit_val c = map_of (zip ''0123456789'' [0, 1, 2, 3, 4, 5, 6, 7, 8, 9]) c"

fun parse_digits :: "nat \<Rightarrow> string \<Rightarrow> nat option" where
  "parse_digits acc [] = Some acc"
| "parse_digits acc (c # cs) =
     (case digit_val c of None \<Rightarrow> None | Some v \<Rightarrow> parse_digits (10 * acc + v) cs)"

definition ref_num_of_str :: "string \<Rightarrow> rat option" where
  "ref_num_of_str s = (if s = [] then None else map_option of_nat (parse_digits 0 s))"

definition digit_chr :: "nat \<Rightarrow> char" where
  "digit_chr n = ''0123456789'' ! (n mod 10)"

fun nat_str_fuel :: "nat \<Rightarrow> nat \<Rightarrow> string" where
  "nat_str_fuel 0 n = []"
| "nat_str_fuel (Suc f) n =
     (if n < 10 then [digit_chr n] else nat_str_fuel f (n div 10) @ [digit_chr n])"

fun frac_str :: "nat \<Rightarrow> rat \<Rightarrow> string" where
  "frac_str 0 r = []"
| "frac_str (Suc f) r =
     (if r = 0 then []
      else let d = nat \<lfloor>r * 10\<rfloor> in digit_chr d # frac_str f (r * 10 - of_nat d))"

definition ref_str_of_num :: "rat \<Rightarrow> string" where
  "ref_str_of_num r =
     (let a = \<bar>r\<bar>; n = nat \<lfloor>a\<rfloor>; fs = frac_str 17 (a - of_nat n)
      in (if r < 0 then ''-'' else []) @ nat_str_fuel (Suc n) n @ ''.'' @ (if fs = [] then ''0'' else fs))"

fun insert_key :: "cell list \<Rightarrow> nat \<Rightarrow> nat list \<Rightarrow> nat list" where
  "insert_key ks i [] = [i]"
| "insert_key ks i (j # js) =
     (if cell_less (ks ! j) (ks ! i) then j # insert_key ks i js else i # j # js)"

definition ref_argsort :: "cell list \<Rightarrow> nat list" where
  "ref_argsort ks = foldr (insert_key ks) [0..<length ks] []"

definition ref_pandas :: "dataframe pandas" where
  "ref_pandas =
     \<lparr>to_json = Some, read_json = Some, re_search = (\<lambda>pat s. None),
      str_of_num = ref_str_of_num, num_of_str = ref_num_of_str, argsort = ref_argsort\<rparr>"

definition is_argsort :: "cell list \<Rightarrow> nat list \<Rightarrow> bool" where
  \<comment> \<open>what every \<open>argsort\<close> returns: the positions of the keys, each once, no key before a
      smaller one\<close>
  "is_argsort ks ix =
     (length ix = length ks \<and> distinct ix \<and> list_all (\<lambda>i. i < length ks) ix \<and>
      sorted_wrt (\<lambda>i j. \<not> cell_less (ks ! j) (ks ! i)) ix)"

section \<open>Example frames\<close>

definition gegenstand_df :: dataframe where
  "gegenstand_df =
     \<lparr>columns = [''Gegenstand''],
      rows = [(0, [Str ''Laptop'']), (1, [Str ''Maus'']), (2, [Str ''Tastatur''])]\<rparr>"

definition preis_df :: dataframe where
  "preis_df =
     \<lparr>columns = [''Preis''],
      rows = [(0, [Num (2401 / 2)]), (1, [Num 25]), (2, [Num (7599 / 100)]), (3, [Str ''n/a''])]\<rparr>"

definition lager_df :: dataframe where
  "lager_df =
     \<lparr>columns = [''Gegenstand'', ''Ort''],
      rows = [(0, [Str ''Laptop'', Str ''Regal'']), (1, [NaN, Str ''Keller''])]\<rparr>"

definition edit1_df :: dataframe where
  \<comment> \<open>\<open>gegenstand_df\<close> after a first cell is edited\<close>

  "edit1_df =
     \<lparr>columns = [''Gegenstand''],
      rows = [(0, [Str ''Laptop'']), (1, [Str ''Mouse'']), (2, [Str ''Tastatur''])]\<rparr>"

definition edit2_df :: dataframe where
  \<comment> \<open>\<open>edit1_df\<close> after a second cell is edited\<close>

  "edit2_df =
     \<lparr>columns = [''Gegenstand''],
      rows = [(0, [Str ''Laptop'']), (1, [Str ''Mouse'']), (2, [Str ''Keyboard''])]\<rparr>"

section \<open>Example states\<close>

definition loaded_state :: "dataframe app_logic" where
  "loaded_state =
     AppLogic_init\<lparr>df := gegenstand_df, current_view_df := gegenstand_df,
                   undo_stack := [gegenstand_df]\<rparr>"

definition undone_state :: "dataframe app_logic" where
  "undone_state =
     AppLogic_init\<lparr>df := edit2_df, current_view_df := gegenstand_df,
                   undo_stack := [gegenstand_df], redo_stack := [edit1_df]\<rparr>"

definition full_state :: "dataframe app_logic" where
  "full_state =
     AppLogic_init\<lparr>df := edit2_df, current_view_df := gegenstand_df,
                   undo_stack := [gegenstand_df, edit1_df], max_undo_steps := 2\<rparr>"

definition failing_pandas :: "dataframe pandas" where
  "failing_pandas = ref_pandas\<lparr>to_json := (\<lambda>d. if d = edit2_df then None else Some d)\<rparr>"

definition sorted_state :: "dataframe app_logic" where
  "sorted_state =
     AppLogic_init\<lparr>df := edit1_df,
        current_view_df := \<lparr>columns = [''Gegenstand''], rows = [(2, [Str ''Tastatur'']), (0, [Str ''Laptop''])]\<rparr>,
        undo_stack := [gegenstand_df, edit1_df],
        active_filter_col := Some ''Gegenstand'', active_filter_text := ''T'',
        active_sort_col := Some ''Gegenstand'', active_sort_type := Some ''za''\<rparr>"

definition edited_state :: "dataframe app_logic" where
  "edited_state =
     AppLogic_init\<lparr>df := edit2_df, current_view_df := gegenstand_df,
                   undo_stack := [gegenstand_df, edit1_df]\<rparr>"

definition synced_state :: "dataframe app_logic" where
  "synced_state =
     AppLogic_init\<lparr>df := edit2_df, current_view_df := edit2_df,
                   undo_stack := [gegenstand_df, edit1_df, edit2_df]\<rparr>"

section \<open>The bound on the history\<close>

definition history_bounded :: "'j app_logic \<Rightarrow> bool" where
  "history_bounded s = (int (length (undo_stack s)) + int (length (redo_stack s)) \<le> max_undo_steps s)"

section \<open>Evaluation\<close>

lemmas frame_defs = gegenstand_df_def edit1_df_def edit2_df_def preis_df_def lager_df_def
lemmas state_defs = AppLogic_init_def loaded_state_def undone_state_def full_state_def empty_frame_def
  sorted_state_def edited_state_def synced_state_def
lemmas engine_defs = push_state_def undo_def redo_def load_new_sheet_def apply_filters_and_sort_def
  reset_filters_and_sort_def compute_view_def filter_step_def sort_step_def is_empty_def Let_def
lemmas lib_defs = ref_pandas_def failing_pandas_def

lemmas view_defs = str_contains_def contains1_def str_lower_def series_astype_str_def astype_str_def
  col_values_def row_values_def cell_at_def regex_free_def mask_rows_def take_rows_def assign_col_def
  to_numeric_def sort_values_def nargsort_def isna_def lower_def lower_char_def strip_def isspace_def
  ref_argsort_def ref_num_of_str_def digit_val_def

lemma run_to_undone:
  "run ref_pandas [LoadNewSheet gegenstand_df, PushState, WriteDf edit1_df, PushState, Undo, PushState,
       WriteDf edit2_df] AppLogic_init = Some undone_state"
  by (simp add: frame_defs state_defs engine_defs lib_defs)

lemma run_to_full:
  "run ref_pandas [LoadNewSheet gegenstand_df, PushState, WriteDf edit1_df, PushState, WriteDf edit2_df]
       (AppLogic_init\<lparr>max_undo_steps := 2\<rparr>) = Some full_state"
  by (simp add: frame_defs state_defs engine_defs lib_defs)

section \<open>\<^verbatim>\<open>push_state\<close>\<close>

lemma push_state_frame:
  "df (push_state pd s) = df s \<and> max_undo_steps (push_state pd s) = max_undo_steps s \<and>
   current_view_df (push_state pd s) = current_view_df s \<and>
   active_filter_col (push_state pd s) = active_filter_col s \<and>
   active_filter_text (push_state pd s) = active_filter_text s \<and>
   active_sort_col (push_state pd s) = active_sort_col s \<and>
   active_sort_type (push_state pd s) = active_sort_type s"
  by (simp add: push_state_def Let_def split: option.split)

lemma push_state_suppressed:
  "to_json pd (df s) = Some j \<Longrightarrow> undo_stack s \<noteq> [] \<Longrightarrow> last (undo_stack s) = j \<Longrightarrow> push_state pd s = s"
  by (simp add: push_state_def)

lemma push_state_appended:
  "to_json pd (df s) = Some j \<Longrightarrow> undo_stack s = [] \<or> last (undo_stack s) \<noteq> j \<Longrightarrow>
   push_state pd s =
     s\<lparr>undo_stack := (if int (length (undo_stack s)) + 1 > max_undo_steps s
                       then tl (undo_stack s @ [j]) else undo_stack s @ [j]),
       redo_stack := []\<rparr>"
  by (auto simp add: push_state_def Let_def)

lemma push_state_failed: "to_json pd (df s) = None \<Longrightarrow> push_state pd s = s"
  by (simp add: push_state_def)

section \<open>\<^verbatim>\<open>undo\<close>, \<^verbatim>\<open>redo\<close> and the recomputed view\<close>

lemma apply_filters_and_sort_frame:
  assumes "apply_filters_and_sort pd fc ft sc st s = Some s'"
  shows "df s' = df s" "undo_stack s' = undo_stack s" "redo_stack s' = redo_stack s"
    "max_undo_steps s' = max_undo_steps s"
  using assms
  by (auto simp add: apply_filters_and_sort_def Let_def split: option.splits)

lemma apply_stored_criteria:
  "apply_filters_and_sort pd None None None None s =
     map_option (\<lambda>v. s\<lparr>current_view_df := v\<rparr>)
       (compute_view pd (df s) (active_filter_col s) (active_filter_text s)
          (active_sort_col s) (active_sort_type s))"
  by (simp add: apply_filters_and_sort_def)

lemma undo_True:
  assumes "undo pd s = Some (True, s')"
  shows "1 < length (undo_stack s)"
    "undo_stack s' = butlast (undo_stack s)"
    "redo_stack s' = redo_stack s @ [last (undo_stack s)]"
    "read_json pd (last (undo_stack s')) = Some (df s')"
    "max_undo_steps s' = max_undo_steps s"
    "active_filter_col s' = active_filter_col s" "active_filter_text s' = active_filter_text s"
    "active_sort_col s' = active_sort_col s" "active_sort_type s' = active_sort_type s"
    "compute_view pd (df s') (active_filter_col s) (active_filter_text s)
          (active_sort_col s) (active_sort_type s) = Some (current_view_df s')"
  using assms
  by (auto simp add: undo_def Let_def apply_stored_criteria split: if_splits option.splits)

lemma undo_False: "undo pd s = Some (False, s') \<Longrightarrow> s' = s \<and> length (undo_stack s) \<le> 1"
  by (auto simp add: undo_def Let_def split: if_splits option.splits)

lemma redo_True:
  assumes "redo pd s = Some (True, s')"
  shows "redo_stack s \<noteq> []"
    "undo_stack s' = undo_stack s @ [last (redo_stack s)]"
    "redo_stack s' = butlast (redo_stack s)"
    "read_json pd (last (undo_stack s')) = Some (df s')"
    "max_undo_steps s' = max_undo_steps s"
    "active_filter_col s' = active_filter_col s" "active_filter_text s' = active_filter_text s"
    "active_sort_col s' = active_sort_col s" "active_sort_type s' = active_sort_type s"
    "compute_view pd (df s') (active_filter_col s) (active_filter_text s)
          (active_sort_col s) (active_sort_type s) = Some (current_view_df s')"
  using assms
  by (auto simp add: redo_def Let_def apply_stored_criteria split: if_splits option.splits)

lemma redo_False: "redo pd s = Some (False, s') \<Longrightarrow> s' = s \<and> redo_stack s = []"
  by (auto simp add: redo_def Let_def split: if_splits option.splits)



lemma push_state_bounded:
  assumes "history_bounded s"
  shows "history_bounded (push_state pd s)"
proof (cases "to_json pd (df s)")
  case None
  then show ?thesis using assms by (simp add: push_state_failed)
next
  case (Some j)
  show ?thesis
  proof (cases "undo_stack s \<noteq> [] \<and> last (undo_stack s) = j")
    case True
    then show ?thesis using assms Some by (simp add: push_state_suppressed)
  next
    case False
    then have "undo_stack s = [] \<or> last (undo_stack s) \<noteq> j" by blast
    from push_state_appended[OF Some this] assms show ?thesis
      by (auto simp add: history_bounded_def)
  qed
qed

lemma load_new_sheet_bounded:
  assumes "load_new_sheet pd d s0 = Some s" "0 \<le> max_undo_steps s0"
  shows "history_bounded s" "max_undo_steps s = max_undo_steps s0"
proof -
  let ?r = "s0\<lparr>df := d, undo_stack := [], redo_stack := [],
                active_filter_col := None, active_filter_text := [],
                active_sort_col := None, active_sort_type := None\<rparr>"
  have a: "apply_filters_and_sort pd None None None None (push_state pd ?r) = Some s"
    using assms(1) by (simp add: load_new_sheet_def Let_def)
  have "history_bounded ?r" using assms(2) by (simp add: history_bounded_def)
  then have "history_bounded (push_state pd ?r)" by (rule push_state_bounded)
  then show "history_bounded s"
    using apply_filters_and_sort_frame[OF a] by (simp add: history_bounded_def)
  show "max_undo_steps s = max_undo_steps s0"
    using apply_filters_and_sort_frame(4)[OF a] by (simp add: push_state_frame)
qed

lemma exec_call_bounded:
  assumes "exec_call pd c s = Some s'" "history_bounded s" "0 \<le> max_undo_steps s"
  shows "history_bounded s' \<and> max_undo_steps s' = max_undo_steps s"
proof (cases c)
  case (LoadNewSheet d)
  then show ?thesis using assms load_new_sheet_bounded[of pd d s s'] by simp
next
  case PushState
  then show ?thesis using assms push_state_bounded[of s pd] by (auto simp add: push_state_frame)
next
  case Undo
  then obtain b where u: "undo pd s = Some (b, s')" using assms(1) by auto
  show ?thesis
  proof (cases b)
    case True
    with u have "undo pd s = Some (True, s')" by simp
    from undo_True(1,2,3,5)[OF this] assms(2) show ?thesis
      by (simp add: history_bounded_def)
  next
    case False
    with u undo_False[of pd s s'] assms(2) show ?thesis by simp
  qed
next
  case Redo
  then obtain b where u: "redo pd s = Some (b, s')" using assms(1) by auto
  show ?thesis
  proof (cases b)
    case True
    with u have "redo pd s = Some (True, s')" by simp
    from redo_True(1,2,3,5)[OF this] assms(2) show ?thesis
      by (cases "redo_stack s") (simp_all add: history_bounded_def)
  next
    case False
    with u redo_False[of pd s s'] assms(2) show ?thesis by simp
  qed
next
  case (ApplyFiltersAndSort fc ft sc st)
  then have "apply_filters_and_sort pd fc ft sc st s = Some s'" using assms(1) by simp
  from apply_filters_and_sort_frame[OF this] assms(2) show ?thesis
    by (simp add: history_bounded_def)
next
  case ResetFiltersAndSort
  then have "apply_filters_and_sort pd (Some []) (Some []) (Some []) (Some []) s = Some s'"
    using assms(1) by (simp add: reset_filters_and_sort_def)
  from apply_filters_and_sort_frame[OF this] assms(2) show ?thesis
    by (simp add: history_bounded_def)
next
  case (WriteDf d)
  then show ?thesis using assms by (auto simp add: history_bounded_def)
qed

lemma run_bounded:
  "run pd cs s = Some s' \<Longrightarrow> history_bounded s \<Longrightarrow> 0 \<le> max_undo_steps s \<Longrightarrow>
   history_bounded s' \<and> max_undo_steps s' = max_undo_steps s"
proof (induction cs arbitrary: s)
  case Nil
  then show ?case by simp
next
  case (Cons c cs)
  then obtain t where t: "exec_call pd c s = Some t" and r: "run pd cs t = Some s'"
    by (auto split: option.splits)
  from exec_call_bounded[OF t Cons.prems(2,3)]
  have "history_bounded t" "max_undo_steps t = max_undo_steps s" by simp_all
  with Cons.IH[OF r] Cons.prems(3) show ?case by simp
qed

lemma undo_n_stacks:
  "undo_n pd n s = Some s1 \<Longrightarrow>
   \<exists>ys. length ys = n \<and> undo_stack s = undo_stack s1 @ ys \<and> redo_stack s1 = redo_stack s @ rev ys"
proof (induction n arbitrary: s)
  case 0
  then show ?case by simp
next
  case (Suc n)
  then obtain t where u: "undo pd s = Some (True, t)" and r: "undo_n pd n t = Some s1"
    by (auto split: option.splits bool.splits prod.splits)
  from Suc.IH[OF r] obtain ys where ys: "length ys = n" "undo_stack t = undo_stack s1 @ ys"
    "redo_stack s1 = redo_stack t @ rev ys" by blast
  from undo_True(1)[OF u] have ne: "undo_stack s \<noteq> []" by auto
  have "undo_stack s = butlast (undo_stack s) @ [last (undo_stack s)]" using ne by simp
  also have "butlast (undo_stack s) = undo_stack s1 @ ys"
    using undo_True(2)[OF u] ys(2) by simp
  finally have "undo_stack s = undo_stack s1 @ (ys @ [last (undo_stack s)])" by simp
  moreover have "redo_stack s1 = redo_stack s @ rev (ys @ [last (undo_stack s)])"
    using undo_True(3)[OF u] ys(3) by simp
  ultimately show ?case using ys(1)
    by (intro exI[of _ "ys @ [last (undo_stack s)]"]) simp
qed

lemma redo_n_stacks:
  "redo_n pd n s = Some s2 \<Longrightarrow>
   \<exists>zs. length zs = n \<and> redo_stack s = redo_stack s2 @ zs \<and> undo_stack s2 = undo_stack s @ rev zs"
proof (induction n arbitrary: s)
  case 0
  then show ?case by simp
next
  case (Suc n)
  then obtain t where u: "redo pd s = Some (True, t)" and r: "redo_n pd n t = Some s2"
    by (auto split: option.splits bool.splits prod.splits)
  from Suc.IH[OF r] obtain zs where zs: "length zs = n" "redo_stack t = redo_stack s2 @ zs"
    "undo_stack s2 = undo_stack t @ rev zs" by blast
  from redo_True(1)[OF u] have ne: "redo_stack s \<noteq> []" .
  have "redo_stack s = butlast (redo_stack s) @ [last (redo_stack s)]" using ne by simp
  also have "butlast (redo_stack s) = redo_stack s2 @ zs"
    using redo_True(3)[OF u] zs(2) by simp
  finally have "redo_stack s = redo_stack s2 @ (zs @ [last (redo_stack s)])" by simp
  moreover have "undo_stack s2 = undo_stack s @ rev (zs @ [last (redo_stack s)])"
    using redo_True(2)[OF u] zs(3) by simp
  ultimately show ?case using zs(1)
    by (intro exI[of _ "zs @ [last (redo_stack s)]"]) simp
qed

lemma redo_n_restores:
  "0 < n \<Longrightarrow> redo_n pd n s = Some s2 \<Longrightarrow> read_json pd (last (undo_stack s2)) = Some (df s2)"
proof (induction n arbitrary: s)
  case 0
  then show ?case by simp
next
  case (Suc n)
  then obtain t where u: "redo pd s = Some (True, t)" and r: "redo_n pd n t = Some s2"
    by (auto split: option.splits bool.splits prod.splits)
  show ?case
  proof (cases "n = 0")
    case True
    with r have "s2 = t" by simp
    with redo_True(4)[OF u] show ?thesis by simp
  next
    case False
    with Suc.IH[OF _ r] show ?thesis by simp
  qed
qed

lemma undo_redo_round_trip:
  assumes "0 < n" "undo_n pd n s = Some s1" "redo_n pd n s1 = Some s2"
  shows "undo_stack s2 = undo_stack s \<and> redo_stack s2 = redo_stack s \<and>
         read_json pd (last (undo_stack s)) = Some (df s2) \<and>
         (df s2 = df s \<longleftrightarrow> read_json pd (last (undo_stack s)) = Some (df s))"
proof -
  from undo_n_stacks[OF assms(2)] obtain ys where ys: "length ys = n"
    "undo_stack s = undo_stack s1 @ ys" "redo_stack s1 = redo_stack s @ rev ys" by blast
  from redo_n_stacks[OF assms(3)] obtain zs where zs: "length zs = n"
    "redo_stack s1 = redo_stack s2 @ zs" "undo_stack s2 = undo_stack s1 @ rev zs" by blast
  from ys(3) zs(2) have "redo_stack s @ rev ys = redo_stack s2 @ zs" by simp
  with ys(1) zs(1) have e: "redo_stack s = redo_stack s2" "rev ys = zs" by simp_all
  then have u: "undo_stack s2 = undo_stack s" using zs(3) ys(2) by auto
  from redo_n_restores[OF assms(1,3)] u have r: "read_json pd (last (undo_stack s)) = Some (df s2)"
    by simp
  from u e(1) r show ?thesis by auto
qed

lemma undo_sorted_state:
  "undo ref_pandas sorted_state =
     Some (True, sorted_state\<lparr>df := gegenstand_df, undo_stack := [gegenstand_df], redo_stack := [edit1_df]\<rparr>)"
  by (simp add: frame_defs state_defs sorted_state_def engine_defs lib_defs view_defs)

lemma redo_sorted_state:
  "redo ref_pandas (sorted_state\<lparr>df := gegenstand_df, undo_stack := [gegenstand_df], redo_stack := [edit1_df]\<rparr>) =
     Some (True, sorted_state)"
  by (simp add: frame_defs state_defs sorted_state_def engine_defs lib_defs view_defs)

section \<open>Sorting by number\<close>

lemma length3E: "length ix = 3 \<Longrightarrow> (\<And>a b c. ix = [a, b, c] \<Longrightarrow> P) \<Longrightarrow> P"
  by (cases ix; cases "tl ix"; cases "tl (tl ix)") (auto simp: numeral_3_eq_3)

lemma is_argsort_asc3:
  assumes "is_argsort [Num (2401 / 2), Num 25, Num (7599 / 100)] ix"
  shows "ix = [1, 2, 0]"
proof -
  from assms have "length ix = 3" by (simp add: is_argsort_def)
  then obtain a b c where ix: "ix = [a, b, c]" by (rule length3E)
  from assms ix have r: "a < 3" "b < 3" "c < 3" and d: "a \<noteq> b" "a \<noteq> c" "b \<noteq> c"
    and s: "\<not> cell_less ([Num (2401 / 2), Num 25, Num (7599 / 100)] ! b) ([Num (2401 / 2), Num 25, Num (7599 / 100)] ! a)"
      "\<not> cell_less ([Num (2401 / 2), Num 25, Num (7599 / 100)] ! c) ([Num (2401 / 2), Num 25, Num (7599 / 100)] ! a)"
      "\<not> cell_less ([Num (2401 / 2), Num 25, Num (7599 / 100)] ! c) ([Num (2401 / 2), Num 25, Num (7599 / 100)] ! b)"
    by (auto simp add: is_argsort_def)
  from r have "a = 0 \<or> a = 1 \<or> a = 2" "b = 0 \<or> b = 1 \<or> b = 2" "c = 0 \<or> c = 1 \<or> c = 2" by auto
  with d s show ?thesis unfolding ix by auto
qed

lemma is_argsort_desc3:
  assumes "is_argsort [Num (7599 / 100), Num 25, Num (2401 / 2)] ix"
  shows "ix = [1, 0, 2]"
proof -
  from assms have "length ix = 3" by (simp add: is_argsort_def)
  then obtain a b c where ix: "ix = [a, b, c]" by (rule length3E)
  from assms ix have r: "a < 3" "b < 3" "c < 3" and d: "a \<noteq> b" "a \<noteq> c" "b \<noteq> c"
    and s: "\<not> cell_less ([Num (7599 / 100), Num 25, Num (2401 / 2)] ! b) ([Num (7599 / 100), Num 25, Num (2401 / 2)] ! a)"
      "\<not> cell_less ([Num (7599 / 100), Num 25, Num (2401 / 2)] ! c) ([Num (7599 / 100), Num 25, Num (2401 / 2)] ! a)"
      "\<not> cell_less ([Num (7599 / 100), Num 25, Num (2401 / 2)] ! c) ([Num (7599 / 100), Num 25, Num (2401 / 2)] ! b)"
    by (auto simp add: is_argsort_def)
  from r have "a = 0 \<or> a = 1 \<or> a = 2" "b = 0 \<or> b = 1 \<or> b = 2" "c = 0 \<or> c = 1 \<or> c = 2" by auto
  with d s show ?thesis unfolding ix by auto
qed

lemma preis_num_asc:
  assumes "num_of_str pd ''n/a'' = None"
    and "argsort pd [Num (2401 / 2), Num 25, Num (7599 / 100)] = [1, 2, 0]"
  shows "compute_view pd preis_df None [] (Some ''Preis'') (Some ''num_asc'') =
     Some \<lparr>columns = [''Preis''],
           rows = [(1, [Num 25]), (2, [Num (7599 / 100)]), (0, [Num (2401 / 2)]), (3, [NaN])]\<rparr>"
  using assms
  by (simp add: preis_df_def compute_view_def filter_step_def sort_step_def is_empty_def Let_def
      col_values_def cell_at_def take_rows_def assign_col_def to_numeric_def sort_values_def nargsort_def isna_def)

lemma preis_num_desc:
  assumes "num_of_str pd ''n/a'' = None"
    and "argsort pd [Num (7599 / 100), Num 25, Num (2401 / 2)] = [1, 0, 2]"
  shows "compute_view pd preis_df None [] (Some ''Preis'') (Some ''num_desc'') =
     Some \<lparr>columns = [''Preis''],
           rows = [(0, [Num (2401 / 2)]), (2, [Num (7599 / 100)]), (1, [Num 25]), (3, [NaN])]\<rparr>"
  using assms
  by (simp add: preis_df_def compute_view_def filter_step_def sort_step_def is_empty_def Let_def
      col_values_def cell_at_def take_rows_def assign_col_def to_numeric_def sort_values_def nargsort_def isna_def)

lemma nargsort_front:
  assumes "\<forall>ks. list_all (\<lambda>k. k < length ks) (argsort pd ks)"
  shows "\<exists>front. nargsort pd items asc = front @ filter (\<lambda>i. isna (items ! i)) [0..<length items] \<and>
           (\<forall>i\<in>set front. i < length items \<and> \<not> isna (items ! i))"
proof -
  define nn where "nn = (if asc then filter (\<lambda>i. \<not> isna (items ! i)) [0..<length items]
                         else rev (filter (\<lambda>i. \<not> isna (items ! i)) [0..<length items]))"
  define indexer where "indexer = map (\<lambda>k. nn ! k) (argsort pd (map (\<lambda>i. items ! i) nn))"
  define front where "front = (if asc then indexer else rev indexer)"
  have nn: "\<forall>i\<in>set nn. i < length items \<and> \<not> isna (items ! i)"
    by (auto simp add: nn_def)
  from assms have "list_all (\<lambda>k. k < length (map (\<lambda>i. items ! i) nn)) (argsort pd (map (\<lambda>i. items ! i) nn))"
    by blast
  then have "\<forall>k\<in>set (argsort pd (map (\<lambda>i. items ! i) nn)). k < length nn"
    by (simp add: list_all_iff)
  then have "set indexer \<subseteq> set nn" by (auto simp add: indexer_def)
  then have "\<forall>i\<in>set front. i < length items \<and> \<not> isna (items ! i)"
    using nn by (auto simp add: front_def)
  moreover have "nargsort pd items asc = front @ filter (\<lambda>i. isna (items ! i)) [0..<length items]"
    by (simp add: nargsort_def Let_def front_def indexer_def nn_def)
  ultimately show ?thesis by blast
qed

lemma col_values_take_rows:
  assumes "\<forall>i\<in>set ix. i < length (rows d)"
  shows "col_values (take_rows d ix) c = map (\<lambda>i. col_values d c ! i) ix"
  using assms by (simp add: col_values_def take_rows_def)

lemma missing_last:
  assumes "\<forall>ks. list_all (\<lambda>k. k < length ks) (argsort pd ks)"
  shows "list_all isna (dropWhile (\<lambda>x. \<not> isna x) (col_values (sort_values pd d (col_values d c) asc) c))"
proof -
  let ?ks = "col_values d c"
  from nargsort_front[OF assms, of ?ks asc] obtain front where
    f: "nargsort pd ?ks asc = front @ filter (\<lambda>i. isna (?ks ! i)) [0..<length ?ks]"
    and g: "\<forall>i\<in>set front. i < length ?ks \<and> \<not> isna (?ks ! i)" by blast
  have len: "length ?ks = length (rows d)" by (simp add: col_values_def)
  have "\<forall>i\<in>set (nargsort pd ?ks asc). i < length (rows d)"
    using f g len by auto
  then have "col_values (sort_values pd d ?ks asc) c = map (\<lambda>i. ?ks ! i) (nargsort pd ?ks asc)"
    unfolding sort_values_def by (rule col_values_take_rows)
  also have "\<dots> = map (\<lambda>i. ?ks ! i) front @ map (\<lambda>i. ?ks ! i) (filter (\<lambda>i. isna (?ks ! i)) [0..<length ?ks])"
    using f by simp
  finally have e: "col_values (sort_values pd d ?ks asc) c =
      map (\<lambda>i. ?ks ! i) front @ map (\<lambda>i. ?ks ! i) (filter (\<lambda>i. isna (?ks ! i)) [0..<length ?ks])" .
  have 1: "\<And>x. x \<in> set (map (\<lambda>i. ?ks ! i) front) \<Longrightarrow> \<not> isna x" using g by auto
  have 2: "list_all isna (map (\<lambda>i. ?ks ! i) (filter (\<lambda>i. isna (?ks ! i)) [0..<length ?ks]))"
    by (simp add: list_all_iff)
  have "dropWhile (\<lambda>x. \<not> isna x) (col_values (sort_values pd d ?ks asc) c) =
        dropWhile (\<lambda>x. \<not> isna x) (map (\<lambda>i. ?ks ! i) (filter (\<lambda>i. isna (?ks ! i)) [0..<length ?ks]))"
    unfolding e by (rule dropWhile_append2) (rule 1)
  moreover have "list_all isna (dropWhile (\<lambda>x. \<not> isna x) (map (\<lambda>i. ?ks ! i) (filter (\<lambda>i. isna (?ks ! i)) [0..<length ?ks])))"
    using 2 by (auto simp add: list_all_iff dest: set_dropWhileD)
  ultimately show ?thesis by simp
qed

lemma numeric_sort_step:
  assumes "c \<noteq> []" "c \<in> set (columns d)" "st = ''num_asc'' \<or> st = ''num_desc''"
  shows "sort_step pd (Some c) (Some st) d =
     sort_values pd (assign_col d c (to_numeric pd (col_values d c)))
       (col_values (assign_col d c (to_numeric pd (col_values d c))) c) (st = ''num_asc'')"
  using assms by (auto simp add: sort_step_def Let_def)

lemma ref_argsort_set: "set (foldr (insert_key ks) js []) = set js"
proof (induction js)
  case Nil
  then show ?case by simp
next
  case (Cons j js)
  have "\<And>i xs. set (insert_key ks i xs) = insert i (set xs)"
  proof -
    fix i xs show "set (insert_key ks i xs) = insert i (set xs)"
      by (induction xs) auto
  qed
  with Cons show ?case by simp
qed

lemma ref_argsort_in_range: "list_all (\<lambda>k. k < length ks) (ref_argsort ks)"
  by (simp add: ref_argsort_def list_all_iff ref_argsort_set)

section \<open>Calls that return\<close>

text \<open>
  A filter text without metacharacters never makes the view computation raise, so
  \<^verbatim>\<open>undo\<close> and \<^verbatim>\<open>redo\<close> return \<^verbatim>\<open>True\<close> whenever there is an entry to restore and the
  library reads it back.
\<close>

lemma those_returns: "(\<And>x. x \<in> set xs \<Longrightarrow> \<exists>y. f x = Some y) \<Longrightarrow> \<exists>ys. those (map f xs) = Some ys"
proof (induction xs)
  case Nil
  then show ?case by simp
next
  case (Cons x xs)
  then obtain y ys where "f x = Some y" "those (map f xs) = Some ys" by (meson list.set_intros)
  then show ?case by simp
qed

lemma str_contains_returns:
  assumes "regex_free pat"
  shows "\<exists>bs. str_contains pd pat na ss = Some bs"
  unfolding str_contains_def
  by (rule those_returns) (simp add: contains1_def assms split: option.split)

lemma filter_step_returns:
  assumes "regex_free (lower (strip filter_text))"
  shows "\<exists>v. filter_step pd filter_col filter_text d = Some v"
proof -
  have "\<exists>m. those (map (\<lambda>row. map_option (\<lambda>bs. True \<in> set bs)
                                  (str_contains pd (lower (strip filter_text)) False
                                     (str_lower (series_astype_str pd (row_values d row)))))
                        (rows d)) = Some m"
  proof (rule those_returns)
    fix row
    from str_contains_returns[OF assms] obtain bs where
      "str_contains pd (lower (strip filter_text)) False (str_lower (series_astype_str pd (row_values d row))) = Some bs"
      by blast
    then show "\<exists>y. map_option (\<lambda>bs. True \<in> set bs)
                                  (str_contains pd (lower (strip filter_text)) False
                                     (str_lower (series_astype_str pd (row_values d row)))) = Some y"
      by simp
  qed
  moreover from str_contains_returns[OF assms] obtain bs where
    "str_contains pd (lower (strip filter_text)) False
       (str_lower (series_astype_str pd (col_values d (the filter_col)))) = Some bs" by blast
  ultimately show ?thesis by (auto simp add: filter_step_def Let_def)
qed

lemma compute_view_returns:
  assumes "regex_free (lower (strip filter_text))"
  shows "\<exists>v. compute_view pd d filter_col filter_text sort_col sort_type = Some v"
  using filter_step_returns[OF assms, of pd filter_col d] by (auto simp add: compute_view_def)

lemma undo_returns:
  assumes "regex_free (lower (strip (active_filter_text s)))" "1 < length (undo_stack s)"
    "read_json pd (last (butlast (undo_stack s))) = Some d"
  shows "\<exists>s'. undo pd s = Some (True, s')"
  using assms compute_view_returns[OF assms(1), of pd d "active_filter_col s" "active_sort_col s" "active_sort_type s"]
  by (auto simp add: undo_def Let_def apply_stored_criteria)

lemma redo_returns:
  assumes "regex_free (lower (strip (active_filter_text s)))" "redo_stack s \<noteq> []"
    "read_json pd (last (redo_stack s)) = Some d"
  shows "\<exists>s'. redo pd s = Some (True, s')"
  using assms compute_view_returns[OF assms(1), of pd d "active_filter_col s" "active_sort_col s" "active_sort_type s"]
  by (auto simp add: redo_def Let_def apply_stored_criteria)

section \<open>Claims on the history\<close>

text \<open>
  C6. Whatever the caller does after a load, the undo stack never holds more entries than
  \<^verbatim>\<open>max_undo_steps\<close> (50 unless the caller sets another value, taken not to be negative)
  once a call has returned: over every sequence of calls that starts with a load, writes of
  \<^verbatim>\<open>df\<close> by the caller included. A push onto an undo stack that is full drops the entry
  at the front, the oldest one, and keeps the others in their order.
\<close>

theorem undo_stack_bounded:
  "(0 \<le> max_undo_steps s0 \<longrightarrow> run pd (LoadNewSheet d # cs) s0 = Some s \<longrightarrow>
      int (length (undo_stack s)) \<le> max_undo_steps s0) \<and>
   (to_json pd (df t) = Some j \<longrightarrow> undo_stack t \<noteq> [] \<longrightarrow> last (undo_stack t) \<noteq> j \<longrightarrow>
      max_undo_steps t \<le> int (length (undo_stack t)) \<longrightarrow>
      undo_stack (push_state pd t) = tl (undo_stack t) @ [j])"
proof (intro conjI impI)
  assume m: "0 \<le> max_undo_steps s0" and r: "run pd (LoadNewSheet d # cs) s0 = Some s"
  from r obtain s1 where l: "load_new_sheet pd d s0 = Some s1" and r1: "run pd cs s1 = Some s"
    by (auto split: option.splits)
  from load_new_sheet_bounded[OF l m] have b: "history_bounded s1" and e: "max_undo_steps s1 = max_undo_steps s0"
    by simp_all
  from run_bounded[OF r1 b] m e have "history_bounded s" "max_undo_steps s = max_undo_steps s0" by simp_all
  then show "int (length (undo_stack s)) \<le> max_undo_steps s0"
    by (simp add: history_bounded_def)
next
  assume j: "to_json pd (df t) = Some j" and ne: "undo_stack t \<noteq> []" and l: "last (undo_stack t) \<noteq> j"
    and m: "max_undo_steps t \<le> int (length (undo_stack t))"
  from l have "undo_stack t = [] \<or> last (undo_stack t) \<noteq> j" by simp
  from push_state_appended[OF j this] m ne show "undo_stack (push_state pd t) = tl (undo_stack t) @ [j]"
    by simp
qed

theorem undo_stack_bounded_witness:
  "0 \<le> max_undo_steps (AppLogic_init\<lparr>max_undo_steps := 2\<rparr> :: dataframe app_logic) \<and>
   run ref_pandas [LoadNewSheet gegenstand_df, PushState, WriteDf edit1_df, PushState, WriteDf edit2_df,
       PushState] (AppLogic_init\<lparr>max_undo_steps := 2\<rparr>) = Some (full_state\<lparr>undo_stack := [edit1_df, edit2_df]\<rparr>) \<and>
   int (length (undo_stack (full_state\<lparr>undo_stack := [edit1_df, edit2_df]\<rparr>))) \<le> 2 \<and>
   to_json ref_pandas (df full_state) = Some edit2_df \<and> undo_stack full_state \<noteq> [] \<and>
   last (undo_stack full_state) \<noteq> edit2_df \<and>
   max_undo_steps full_state \<le> int (length (undo_stack full_state)) \<and>
   undo_stack (push_state ref_pandas full_state) = tl (undo_stack full_state) @ [edit2_df]"
  using undo_stack_bounded[of "AppLogic_init\<lparr>max_undo_steps := 2\<rparr>" ref_pandas gegenstand_df
      "[PushState, WriteDf edit1_df, PushState, WriteDf edit2_df, PushState]"
      "full_state\<lparr>undo_stack := [edit1_df, edit2_df]\<rparr>" full_state edit2_df]
  by (simp add: frame_defs state_defs engine_defs lib_defs)

text \<open>
  C7. \<^verbatim>\<open>push_state\<close> is idempotent: a second call right after a first one, the frame not
  touched in between, changes nothing, neither the length nor the contents of the undo
  stack. A call whose serialized frame is the entry on top of the undo stack appends
  nothing and leaves the whole state as it is.
\<close>

theorem push_state_idempotent:
  "push_state pd (push_state pd s) = push_state pd s \<and>
   (to_json pd (df s) = Some j \<longrightarrow> undo_stack s \<noteq> [] \<longrightarrow> last (undo_stack s) = j \<longrightarrow>
      push_state pd s = s)"
proof
  show "push_state pd (push_state pd s) = push_state pd s"
  proof (cases "to_json pd (df s)")
    case None
    then show ?thesis by (simp add: push_state_failed)
  next
    case (Some j)
    show ?thesis
    proof (cases "undo_stack s \<noteq> [] \<and> last (undo_stack s) = j")
      case True
      with Some have "push_state pd s = s" by (simp add: push_state_suppressed)
      then show ?thesis by simp
    next
      case False
      then have app: "undo_stack s = [] \<or> last (undo_stack s) \<noteq> j" by blast
      let ?t = "push_state pd s"
      have t: "?t = s\<lparr>undo_stack := (if int (length (undo_stack s)) + 1 > max_undo_steps s
                       then tl (undo_stack s @ [j]) else undo_stack s @ [j]),
                     redo_stack := []\<rparr>"
        using push_state_appended[OF Some app] .
      have tj: "to_json pd (df ?t) = Some j" using Some by (simp add: push_state_frame)
      show ?thesis
      proof (cases "undo_stack ?t = []")
        case True
        then have e: "undo_stack s = []" and m: "int (length (undo_stack s)) + 1 > max_undo_steps s"
          using t by (auto split: if_splits simp: tl_append split: list.splits)
        have "push_state pd ?t = ?t\<lparr>undo_stack := (if int (length (undo_stack ?t)) + 1 > max_undo_steps ?t
                       then tl (undo_stack ?t @ [j]) else undo_stack ?t @ [j]), redo_stack := []\<rparr>"
          using push_state_appended[OF tj] True by blast
        then show ?thesis using True e m t by (simp add: push_state_frame)
      next
        case False
        moreover have "last (undo_stack ?t) = j"
          using False t by (auto split: if_splits simp: tl_append last_tl split: list.splits)
        ultimately show ?thesis using tj by (simp add: push_state_suppressed)
      qed
    qed
  qed
next
  show "to_json pd (df s) = Some j \<longrightarrow> undo_stack s \<noteq> [] \<longrightarrow> last (undo_stack s) = j \<longrightarrow> push_state pd s = s"
    by (simp add: push_state_suppressed)
qed

theorem push_state_idempotent_witness:
  "load_new_sheet ref_pandas gegenstand_df AppLogic_init = Some loaded_state \<and>
   to_json ref_pandas (df loaded_state) = Some gegenstand_df \<and>
   undo_stack loaded_state \<noteq> [] \<and> last (undo_stack loaded_state) = gegenstand_df \<and>
   push_state ref_pandas loaded_state = loaded_state \<and>
   push_state ref_pandas (push_state ref_pandas undone_state) = push_state ref_pandas undone_state \<and>
   undo_stack (push_state ref_pandas undone_state) = [gegenstand_df, edit2_df]"
  using push_state_idempotent[of ref_pandas loaded_state gegenstand_df]
    push_state_idempotent[of ref_pandas undone_state gegenstand_df]
  by (simp add: frame_defs state_defs engine_defs lib_defs)

text \<open>
  C8. A push that appends (the undo stack is empty, or the serialized frame differs from
  its top entry) leaves the redo stack empty, whatever it held, as after some calls of
  \<^verbatim>\<open>undo\<close>; a push that is suppressed leaves both stacks unchanged.
\<close>

theorem push_state_redo_stack:
  "to_json pd (df s) = Some j \<Longrightarrow>
   (undo_stack s = [] \<or> last (undo_stack s) \<noteq> j \<longrightarrow>
      redo_stack (push_state pd s) = [] \<and>
      undo_stack (push_state pd s) \<in> {undo_stack s @ [j], tl (undo_stack s @ [j])}) \<and>
   (undo_stack s \<noteq> [] \<and> last (undo_stack s) = j \<longrightarrow>
      redo_stack (push_state pd s) = redo_stack s \<and> undo_stack (push_state pd s) = undo_stack s)"
proof (intro conjI impI)
  assume j: "to_json pd (df s) = Some j" and a: "undo_stack s = [] \<or> last (undo_stack s) \<noteq> j"
  from push_state_appended[OF j a] show "redo_stack (push_state pd s) = []" by simp
  from push_state_appended[OF j a]
  show "undo_stack (push_state pd s) \<in> {undo_stack s @ [j], tl (undo_stack s @ [j])}" by simp
next
  assume j: "to_json pd (df s) = Some j" and a: "undo_stack s \<noteq> [] \<and> last (undo_stack s) = j"
  then have "push_state pd s = s" by (simp add: push_state_suppressed)
  then show "redo_stack (push_state pd s) = redo_stack s" "undo_stack (push_state pd s) = undo_stack s"
    by simp_all
qed

theorem push_state_redo_stack_witness:
  "run ref_pandas [LoadNewSheet gegenstand_df, PushState, WriteDf edit1_df, PushState, Undo, PushState,
       WriteDf edit2_df] AppLogic_init = Some undone_state \<and>
   to_json ref_pandas (df undone_state) = Some edit2_df \<and>
   (undo_stack undone_state = [] \<or> last (undo_stack undone_state) \<noteq> edit2_df) \<and>
   redo_stack undone_state = [edit1_df] \<and>
   redo_stack (push_state ref_pandas undone_state) = [] \<and>
   to_json ref_pandas (df (undone_state\<lparr>df := gegenstand_df\<rparr>)) = Some gegenstand_df \<and>
   undo_stack (undone_state\<lparr>df := gegenstand_df\<rparr>) \<noteq> [] \<and>
   last (undo_stack (undone_state\<lparr>df := gegenstand_df\<rparr>)) = gegenstand_df \<and>
   redo_stack (push_state ref_pandas (undone_state\<lparr>df := gegenstand_df\<rparr>)) = [edit1_df]"
  using push_state_redo_stack[of ref_pandas undone_state edit2_df]
    push_state_redo_stack[of ref_pandas "undone_state\<lparr>df := gegenstand_df\<rparr>" gegenstand_df]
    run_to_undone
  by (simp add: frame_defs state_defs lib_defs)

text \<open>
  C9. When the serialization of the frame raises inside \<^verbatim>\<open>push_state\<close>, the call still
  returns: the exception is caught there, and the state after the call is the state before
  it, so the undo stack, the redo stack and the frame itself are as they were.
\<close>

theorem push_state_serialization_failure:
  "to_json pd (df s) = None \<Longrightarrow>
   push_state pd s = s \<and> undo_stack (push_state pd s) = undo_stack s \<and>
   redo_stack (push_state pd s) = redo_stack s \<and> df (push_state pd s) = df s"
  by (simp add: push_state_failed)

theorem push_state_serialization_failure_witness:
  "to_json failing_pandas (df undone_state) = None \<and>
   push_state failing_pandas undone_state = undone_state \<and>
   undo_stack (push_state failing_pandas undone_state) = [gegenstand_df] \<and>
   redo_stack (push_state failing_pandas undone_state) = [edit1_df] \<and>
   df (push_state failing_pandas undone_state) = edit2_df"
  using push_state_serialization_failure[of failing_pandas undone_state]
  by (simp add: frame_defs state_defs lib_defs)

text \<open>
  C10. \<^verbatim>\<open>undo\<close> and \<^verbatim>\<open>redo\<close> leave the four criteria of the view as they are: the
  filter column, the filter text, the sort column and the sort type. A call that returns
  \<^verbatim>\<open>True\<close> has restored the frame from the entry now on top of the undo stack, and the
  view it leaves is the view of that frame under the same criteria; a call that returns
  \<^verbatim>\<open>False\<close> changes nothing.
\<close>

theorem undo_redo_keep_criteria:
  "(undo pd s = Some (b, s') \<longrightarrow>
      active_filter_col s' = active_filter_col s \<and> active_filter_text s' = active_filter_text s \<and>
      active_sort_col s' = active_sort_col s \<and> active_sort_type s' = active_sort_type s \<and>
      (if b then read_json pd (last (undo_stack s')) = Some (df s') \<and>
                 compute_view pd (df s') (active_filter_col s) (active_filter_text s)
                   (active_sort_col s) (active_sort_type s) = Some (current_view_df s')
       else s' = s)) \<and>
   (redo pd t = Some (c, t') \<longrightarrow>
      active_filter_col t' = active_filter_col t \<and> active_filter_text t' = active_filter_text t \<and>
      active_sort_col t' = active_sort_col t \<and> active_sort_type t' = active_sort_type t \<and>
      (if c then read_json pd (last (undo_stack t')) = Some (df t') \<and>
                 compute_view pd (df t') (active_filter_col t) (active_filter_text t)
                   (active_sort_col t) (active_sort_type t) = Some (current_view_df t')
       else t' = t))"
proof (intro conjI impI)
  assume u: "undo pd s = Some (b, s')"
  show "active_filter_col s' = active_filter_col s"
    using u undo_True(6)[of pd s s'] undo_False[of pd s s'] by (cases b) simp_all
  show "active_filter_text s' = active_filter_text s"
    using u undo_True(7)[of pd s s'] undo_False[of pd s s'] by (cases b) simp_all
  show "active_sort_col s' = active_sort_col s"
    using u undo_True(8)[of pd s s'] undo_False[of pd s s'] by (cases b) simp_all
  show "active_sort_type s' = active_sort_type s"
    using u undo_True(9)[of pd s s'] undo_False[of pd s s'] by (cases b) simp_all
  show "if b then read_json pd (last (undo_stack s')) = Some (df s') \<and>
                 compute_view pd (df s') (active_filter_col s) (active_filter_text s)
                   (active_sort_col s) (active_sort_type s) = Some (current_view_df s')
       else s' = s"
    using u undo_True(4,10)[of pd s s'] undo_False[of pd s s'] by (cases b) simp_all
next
  assume u: "redo pd t = Some (c, t')"
  show "active_filter_col t' = active_filter_col t"
    using u redo_True(6)[of pd t t'] redo_False[of pd t t'] by (cases c) simp_all
  show "active_filter_text t' = active_filter_text t"
    using u redo_True(7)[of pd t t'] redo_False[of pd t t'] by (cases c) simp_all
  show "active_sort_col t' = active_sort_col t"
    using u redo_True(8)[of pd t t'] redo_False[of pd t t'] by (cases c) simp_all
  show "active_sort_type t' = active_sort_type t"
    using u redo_True(9)[of pd t t'] redo_False[of pd t t'] by (cases c) simp_all
  show "if c then read_json pd (last (undo_stack t')) = Some (df t') \<and>
                 compute_view pd (df t') (active_filter_col t) (active_filter_text t)
                   (active_sort_col t) (active_sort_type t) = Some (current_view_df t')
       else t' = t"
    using u redo_True(4,10)[of pd t t'] redo_False[of pd t t'] by (cases c) simp_all
qed

theorem undo_redo_keep_criteria_witness:
  "undo ref_pandas sorted_state =
     Some (True, sorted_state\<lparr>df := gegenstand_df, undo_stack := [gegenstand_df], redo_stack := [edit1_df]\<rparr>) \<and>
   redo ref_pandas (sorted_state\<lparr>df := gegenstand_df, undo_stack := [gegenstand_df], redo_stack := [edit1_df]\<rparr>) =
     Some (True, sorted_state) \<and>
   active_filter_col sorted_state = Some ''Gegenstand'' \<and> active_filter_text sorted_state = ''T'' \<and>
   active_sort_col sorted_state = Some ''Gegenstand'' \<and> active_sort_type sorted_state = Some ''za'' \<and>
   compute_view ref_pandas gegenstand_df (Some ''Gegenstand'') ''T'' (Some ''Gegenstand'') (Some ''za'') =
     Some \<lparr>columns = [''Gegenstand''], rows = [(2, [Str ''Tastatur'']), (0, [Str ''Laptop''])]\<rparr> \<and>
   compute_view ref_pandas edit1_df (Some ''Gegenstand'') ''T'' (Some ''Gegenstand'') (Some ''za'') =
     Some (current_view_df sorted_state)"
  using undo_redo_keep_criteria[of ref_pandas sorted_state True
      "sorted_state\<lparr>df := gegenstand_df, undo_stack := [gegenstand_df], redo_stack := [edit1_df]\<rparr>"
      "sorted_state\<lparr>df := gegenstand_df, undo_stack := [gegenstand_df], redo_stack := [edit1_df]\<rparr>"
      True sorted_state]
    undo_sorted_state redo_sorted_state
  by (simp add: sorted_state_def AppLogic_init_def)

text \<open>
  C1. The round trip of \<open>n\<close> calls of \<^verbatim>\<open>undo\<close> and \<open>n\<close> calls of \<^verbatim>\<open>redo\<close> does not
  bring every frame back. \<^verbatim>\<open>_handle_cell_changed\<close> calls \<^verbatim>\<open>push_state\<close> before it writes
  the cell, so after two edits of a loaded sheet the undo stack holds the loaded frame and
  the frame after the first edit, and the frame after the second edit is on no stack. One
  \<^verbatim>\<open>undo\<close> (allowed: the stack holds two entries) followed by one \<^verbatim>\<open>redo\<close> leaves the
  frame after the first edit, not the frame the round trip started from. The lemma
  \<open>undo_redo_round_trip\<close> above says when the round trip does bring the frame back.
\<close>

theorem undo_redo_loses_edit:
  "run ref_pandas [LoadNewSheet gegenstand_df, PushState, WriteDf edit1_df, PushState, WriteDf edit2_df]
     AppLogic_init = Some edited_state \<and>
   df edited_state = edit2_df \<and> length (undo_stack edited_state) = 2 \<and>
   undo_n ref_pandas 1 edited_state =
     Some (edited_state\<lparr>df := gegenstand_df, undo_stack := [gegenstand_df], redo_stack := [edit1_df]\<rparr>) \<and>
   redo_n ref_pandas 1
       (edited_state\<lparr>df := gegenstand_df, undo_stack := [gegenstand_df], redo_stack := [edit1_df]\<rparr>) =
     Some (edited_state\<lparr>df := edit1_df, current_view_df := edit1_df\<rparr>) \<and>
   df (edited_state\<lparr>df := edit1_df, current_view_df := edit1_df\<rparr>) \<noteq> df edited_state"
  by (simp add: frame_defs state_defs engine_defs lib_defs)

section \<open>Claims on the view\<close>

text \<open>
  C3. Filtering the column \<^verbatim>\<open>Gegenstand\<close> with the values Laptop, Maus, Tastatur by the
  text \<^verbatim>\<open>ax\<close> gives a view with no row: none of the three values contains \<^verbatim>\<open>ax\<close> (the
  text \<^verbatim>\<open>ap\<close> gives the row of Laptop alone). With an empty filter text the view holds
  all rows unchanged, and the filter step returns any frame as it is.
\<close>

theorem filter_gegenstand:
  "compute_view pd gegenstand_df (Some ''Gegenstand'') ''ax'' None None =
     Some \<lparr>columns = [''Gegenstand''], rows = []\<rparr> \<and>
   compute_view pd gegenstand_df (Some ''Gegenstand'') ''ap'' None None =
     Some \<lparr>columns = [''Gegenstand''], rows = [(0, [Str ''Laptop''])]\<rparr> \<and>
   compute_view pd gegenstand_df (Some ''Gegenstand'') [] None None = Some gegenstand_df \<and>
   filter_step pd filter_col [] d = Some d"
  by (simp add: frame_defs compute_view_def filter_step_def sort_step_def is_empty_def view_defs)

text \<open>
  The same filter run on the reference library: the view has no row, so it is not the
  view of one row that holds Laptop.
\<close>

theorem filter_ax_counterexample:
  "map_option rows (compute_view ref_pandas gegenstand_df (Some ''Gegenstand'') ''ax'' None None) = Some [] \<and>
   map_option rows (compute_view ref_pandas gegenstand_df (Some ''Gegenstand'') ''ax'' None None)
     \<noteq> Some [(0, [Str ''Laptop''])]"
  by (simp add: frame_defs compute_view_def filter_step_def sort_step_def is_empty_def view_defs)

text \<open>
  C4. A row whose value in the filter column is missing is kept by the filter when the
  filter text is \<^verbatim>\<open>nan\<close>: \<^verbatim>\<open>astype(str)\<close> has made the text \<^verbatim>\<open>nan\<close> of the missing value
  (and \<^verbatim>\<open>None\<close> of Python's \<^verbatim>\<open>None\<close>) before \<^verbatim>\<open>str.contains\<close> runs, so the argument
  \<^verbatim>\<open>na=False\<close> of that call never applies.
\<close>

theorem filter_nan_keeps_missing_row:
  "compute_view pd lager_df (Some ''Gegenstand'') ''nan'' None None =
     Some \<lparr>columns = [''Gegenstand'', ''Ort''], rows = [(1, [NaN, Str ''Keller''])]\<rparr> \<and>
   str_contains pd ''nan'' False (str_lower (series_astype_str pd [NaN])) = Some [True] \<and>
   str_contains pd ''none'' False (str_lower (series_astype_str pd [PyNone])) = Some [True]"
  by (simp add: frame_defs compute_view_def filter_step_def sort_step_def is_empty_def view_defs)

text \<open>
  C5. Sorting the column \<^verbatim>\<open>Preis\<close> with the values 1200.50, 25.00, 75.99 and the text
  \<^verbatim>\<open>n/a\<close> by number puts the rows in the order 25.00, 75.99, 1200.50 when ascending and
  1200.50, 75.99, 25.00 when descending, and the row of \<^verbatim>\<open>n/a\<close> last both times; in the
  view the cell of that row is the missing value \<^verbatim>\<open>NaN\<close>, since the sort writes the
  converted column into the view. In every frame sorted by number on one of its columns,
  ascending or descending, no number follows a missing value in that column of the view.
  The library is taken to read no number from \<^verbatim>\<open>n/a\<close> and to return from \<open>argsort\<close>
  positions of its argument, in sorted order for the three numbers.
\<close>

theorem numeric_sort_preis:
  assumes "num_of_str pd ''n/a'' = None"
    and "is_argsort [Num (2401 / 2), Num 25, Num (7599 / 100)]
           (argsort pd [Num (2401 / 2), Num 25, Num (7599 / 100)])"
    and "is_argsort [Num (7599 / 100), Num 25, Num (2401 / 2)]
           (argsort pd [Num (7599 / 100), Num 25, Num (2401 / 2)])"
    and "\<forall>ks. list_all (\<lambda>k. k < length ks) (argsort pd ks)"
    and "c \<noteq> []" and "c \<in> set (columns d)" and "st = ''num_asc'' \<or> st = ''num_desc''"
  shows "compute_view pd preis_df None [] (Some ''Preis'') (Some ''num_asc'') =
           Some \<lparr>columns = [''Preis''],
                 rows = [(1, [Num 25]), (2, [Num (7599 / 100)]), (0, [Num (2401 / 2)]), (3, [NaN])]\<rparr> \<and>
         compute_view pd preis_df None [] (Some ''Preis'') (Some ''num_desc'') =
           Some \<lparr>columns = [''Preis''],
                 rows = [(0, [Num (2401 / 2)]), (2, [Num (7599 / 100)]), (1, [Num 25]), (3, [NaN])]\<rparr> \<and>
         list_all isna (dropWhile (\<lambda>x. \<not> isna x) (col_values (sort_step pd (Some c) (Some st) d) c))"
proof (intro conjI)
  show "compute_view pd preis_df None [] (Some ''Preis'') (Some ''num_asc'') =
           Some \<lparr>columns = [''Preis''],
                 rows = [(1, [Num 25]), (2, [Num (7599 / 100)]), (0, [Num (2401 / 2)]), (3, [NaN])]\<rparr>"
    using assms(1) is_argsort_asc3[OF assms(2)] by (rule preis_num_asc)
  show "compute_view pd preis_df None [] (Some ''Preis'') (Some ''num_desc'') =
           Some \<lparr>columns = [''Preis''],
                 rows = [(0, [Num (2401 / 2)]), (2, [Num (7599 / 100)]), (1, [Num 25]), (3, [NaN])]\<rparr>"
    using assms(1) is_argsort_desc3[OF assms(3)] by (rule preis_num_desc)
  show "list_all isna (dropWhile (\<lambda>x. \<not> isna x) (col_values (sort_step pd (Some c) (Some st) d) c))"
    unfolding numeric_sort_step[OF assms(5,6,7)] using assms(4) by (rule missing_last)
qed

lemma ref_argsort_asc3: "ref_argsort [Num (2401 / 2), Num 25, Num (7599 / 100)] = [1, 2, 0]"
  by (simp add: ref_argsort_def)

lemma ref_argsort_desc3: "ref_argsort [Num (7599 / 100), Num 25, Num (2401 / 2)] = [1, 0, 2]"
  by (simp add: ref_argsort_def)

lemma ref_num_of_str_na: "ref_num_of_str ''n/a'' = None"
  by (simp add: ref_num_of_str_def digit_val_def)

theorem numeric_sort_preis_witness:
  "num_of_str ref_pandas ''n/a'' = None \<and>
   is_argsort [Num (2401 / 2), Num 25, Num (7599 / 100)]
     (argsort ref_pandas [Num (2401 / 2), Num 25, Num (7599 / 100)]) \<and>
   is_argsort [Num (7599 / 100), Num 25, Num (2401 / 2)]
     (argsort ref_pandas [Num (7599 / 100), Num 25, Num (2401 / 2)]) \<and>
   (\<forall>ks. list_all (\<lambda>k. k < length ks) (argsort ref_pandas ks)) \<and>
   ''Preis'' \<noteq> [] \<and> ''Preis'' \<in> set (columns preis_df) \<and>
   compute_view ref_pandas preis_df None [] (Some ''Preis'') (Some ''num_asc'') =
     Some \<lparr>columns = [''Preis''],
           rows = [(1, [Num 25]), (2, [Num (7599 / 100)]), (0, [Num (2401 / 2)]), (3, [NaN])]\<rparr> \<and>
   compute_view ref_pandas preis_df None [] (Some ''Preis'') (Some ''num_desc'') =
     Some \<lparr>columns = [''Preis''],
           rows = [(0, [Num (2401 / 2)]), (2, [Num (7599 / 100)]), (1, [Num 25]), (3, [NaN])]\<rparr> \<and>
   list_all isna (dropWhile (\<lambda>x. \<not> isna x)
     (col_values (sort_step ref_pandas (Some ''Preis'') (Some ''num_desc'') preis_df) ''Preis''))"
proof -
  have 1: "num_of_str ref_pandas ''n/a'' = None" by (simp add: ref_pandas_def ref_num_of_str_na)
  have 2: "is_argsort [Num (2401 / 2), Num 25, Num (7599 / 100)]
     (argsort ref_pandas [Num (2401 / 2), Num 25, Num (7599 / 100)])"
    by (simp add: ref_pandas_def ref_argsort_asc3 is_argsort_def)
  have 3: "is_argsort [Num (7599 / 100), Num 25, Num (2401 / 2)]
     (argsort ref_pandas [Num (7599 / 100), Num 25, Num (2401 / 2)])"
    by (simp add: ref_pandas_def ref_argsort_desc3 is_argsort_def)
  have 4: "\<forall>ks. list_all (\<lambda>k. k < length ks) (argsort ref_pandas ks)"
    by (simp add: ref_pandas_def ref_argsort_in_range)
  have 5: "''Preis'' \<noteq> []" "''Preis'' \<in> set (columns preis_df)" by (simp_all add: preis_df_def)
  have 6: "''num_desc'' = ''num_asc'' \<or> ''num_desc'' = ''num_desc''" by simp
  from numeric_sort_preis[OF 1 2 3 4 5 6] 1 2 3 4 5 show ?thesis by blast
qed

text \<open>
  On the reference library the column \<^verbatim>\<open>Preis\<close> of the view sorted ascending ends with
  \<^verbatim>\<open>NaN\<close>, not with the text \<^verbatim>\<open>n/a\<close>.
\<close>

theorem numeric_sort_preis_counterexample:
  "map_option (\<lambda>v. col_values v ''Preis'')
     (compute_view ref_pandas preis_df None [] (Some ''Preis'') (Some ''num_asc'')) =
     Some [Num 25, Num (7599 / 100), Num (2401 / 2), NaN] \<and>
   map_option (\<lambda>v. col_values v ''Preis'')
     (compute_view ref_pandas preis_df None [] (Some ''Preis'') (Some ''num_asc''))
     \<noteq> Some [Num 25, Num (7599 / 100), Num (2401 / 2), Str ''n/a'']"
proof -
  have "compute_view ref_pandas preis_df None [] (Some ''Preis'') (Some ''num_asc'') =
     Some \<lparr>columns = [''Preis''],
           rows = [(1, [Num 25]), (2, [Num (7599 / 100)]), (0, [Num (2401 / 2)]), (3, [NaN])]\<rparr>"
    by (rule preis_num_asc) (simp_all add: ref_pandas_def ref_num_of_str_na ref_argsort_asc3)
  then show ?thesis by (simp add: col_values_def cell_at_def)
qed

end
